theory Spec2Isabelle
  imports Complex_Main
begin

section \<open>JavaScript values of the payloads\<close>

text \<open>
  The payloads handed to \<open>enqueue\<close> are plain JavaScript values. Numbers are the finite
  ones (as rationals), \<open>NaN\<close> and the two infinities (\<open>JInfinity True\<close> is \<open>+Infinity\<close>).
\<close>

datatype jsval =
    JUndefined
  | JNull
  | JBool bool
  | JNum rat
  | JNaN
  | JInfinity bool
  | JStr string
  | JArr "jsval list"
  | JObj "(string \<times> jsval) list"

text \<open>\<open>!v\<close> is \<open>\<not> truthy v\<close>: the falsy values are undefined, null, false, 0, NaN and "".\<close>

fun truthy :: "jsval \<Rightarrow> bool" where
  "truthy JUndefined = False"
| "truthy JNull = False"
| "truthy (JBool b) = b"
| "truthy (JNum q) = (q \<noteq> 0)"
| "truthy JNaN = False"
| "truthy (JInfinity b) = True"
| "truthy (JStr s) = (s \<noteq> [])"
| "truthy (JArr xs) = True"
| "truthy (JObj kvs) = True"

text \<open>\<open>v[k]\<close> for the field names used here: a key an object lacks reads as undefined,
  and so does any such key of a primitive or an array.\<close>

fun getProp :: "jsval \<Rightarrow> string \<Rightarrow> jsval" where
  "getProp (JObj kvs) k = (case map_of kvs k of Some v \<Rightarrow> v | None \<Rightarrow> JUndefined)"
| "getProp v k = JUndefined"

text \<open>\<open>typeof v === 'number'\<close> and \<open>typeof v === 'object'\<close>.\<close>

fun typeofNumber :: "jsval \<Rightarrow> bool" where
  "typeofNumber (JNum q) = True"
| "typeofNumber JNaN = True"
| "typeofNumber (JInfinity b) = True"
| "typeofNumber v = False"

fun typeofObject :: "jsval \<Rightarrow> bool" where
  "typeofObject JNull = True"
| "typeofObject (JArr xs) = True"
| "typeofObject (JObj kvs) = True"
| "typeofObject v = False"

text \<open>\<open>v < 0\<close> on a number (the source only evaluates it after the \<open>typeof\<close> test).\<close>

fun ltZero :: "jsval \<Rightarrow> bool" where
  "ltZero (JNum q) = (q < 0)"
| "ltZero (JInfinity b) = (\<not> b)"
| "ltZero v = False"

text \<open>\<open>v++\<close> on a property: the old value is converted to a number and one is added.
  Only booleans and numbers are ever stored under the keys incremented here.\<close>

fun increment :: "jsval \<Rightarrow> jsval" where
  "increment (JBool b) = JNum (if b then 2 else 1)"
| "increment (JNum q) = JNum (q + 1)"
| "increment JNull = JNum 1"
| "increment (JInfinity b) = JInfinity b"
| "increment v = JNaN"

section \<open>Validation\<close>

datatype error =
    TransactionRequired
  | TransactionTypeRequired
  | InvalidTransactionType jsval
  | TransactionDataRequired
  | LogMissingField string
  | InvalidPlayerAddressLog
  | InvalidBetAmount
  | InvalidPayoutAmount
  | InvalidPlayerAddressNFT
  | InvalidMetadataNFT
  | NFTMissingField string
  | NonceNotInitialized

text \<open>The \<open>for (const field of required)\<close> loops: the first field that is undefined or
  null, respectively the first field that is falsy.\<close>

fun firstMissing :: "jsval \<Rightarrow> string list \<Rightarrow> string option" where
  "firstMissing data [] = None"
| "firstMissing data (field # fields) =
     (if getProp data field = JUndefined \<or> getProp data field = JNull then Some field
      else firstMissing data fields)"

fun firstFalsy :: "jsval \<Rightarrow> string list \<Rightarrow> string option" where
  "firstFalsy metadata [] = None"
| "firstFalsy metadata (field # fields) =
     (if \<not> truthy (getProp metadata field) then Some field
      else firstFalsy metadata fields)"

text \<open>\<open>ethers.isAddress\<close> belongs to the ethers library; it is the parameter \<open>isAddress\<close>.\<close>

definition validateLogTransaction :: "(jsval \<Rightarrow> bool) \<Rightarrow> jsval \<Rightarrow> error + unit" where
  "validateLogTransaction isAddress data =
     (case firstMissing data [''gameType'', ''playerAddress'', ''betAmount'', ''payout'', ''result''] of
        Some field \<Rightarrow> Inl (LogMissingField field)
      | None \<Rightarrow>
          if \<not> isAddress (getProp data ''playerAddress'') then Inl InvalidPlayerAddressLog
          else if \<not> typeofNumber (getProp data ''betAmount'') \<or> ltZero (getProp data ''betAmount'')
            then Inl InvalidBetAmount
          else if \<not> typeofNumber (getProp data ''payout'') \<or> ltZero (getProp data ''payout'')
            then Inl InvalidPayoutAmount
          else Inr ())"

definition validateNFTTransaction :: "(jsval \<Rightarrow> bool) \<Rightarrow> jsval \<Rightarrow> error + unit" where
  "validateNFTTransaction isAddress data =
     (if \<not> truthy (getProp data ''playerAddress'') \<or> \<not> isAddress (getProp data ''playerAddress'')
        then Inl InvalidPlayerAddressNFT
      else if \<not> truthy (getProp data ''metadata'') \<or> \<not> typeofObject (getProp data ''metadata'')
        then Inl InvalidMetadataNFT
      else case firstFalsy (getProp data ''metadata'') [''name'', ''description'', ''attributes''] of
          Some field \<Rightarrow> Inl (NFTMissingField field)
        | None \<Rightarrow> Inr ())"

definition validateTransaction :: "(jsval \<Rightarrow> bool) \<Rightarrow> jsval \<Rightarrow> error + unit" where
  "validateTransaction isAddress transaction =
     (if \<not> truthy transaction then Inl TransactionRequired
      else if \<not> truthy (getProp transaction ''type'') then Inl TransactionTypeRequired
      else if getProp transaction ''type'' \<noteq> JStr ''LOG'' \<and> getProp transaction ''type'' \<noteq> JStr ''NFT''
        then Inl (InvalidTransactionType (getProp transaction ''type''))
      else if \<not> truthy (getProp transaction ''data'') then Inl TransactionDataRequired
      else if getProp transaction ''type'' = JStr ''LOG''
        then validateLogTransaction isAddress (getProp transaction ''data'')
      else validateNFTTransaction isAddress (getProp transaction ''data''))"

section \<open>The queue object\<close>

datatype txStatus = PENDING | PROCESSING | COMPLETED | FAILED

text \<open>A queued transaction; \<open>null\<close> in \<open>lastAttempt\<close>, \<open>error\<close> and \<open>result\<close> is \<open>None\<close>.
  Dates are milliseconds.\<close>

record queuedTransaction =
  txId :: string
  txType :: jsval
  txData :: jsval
  status :: txStatus
  retryCount :: nat
  createdAt :: nat
  lastAttempt :: "nat option"
  txError :: "jsval option"
  txResult :: "jsval option"

record transactionQueue =
  provider :: jsval
  signer :: jsval
  queue :: "queuedTransaction list"
  processing :: bool
  currentNonce :: "nat option"
  maxRetries :: nat
  baseDelay :: nat
  maxDelay :: nat

definition constructor :: "jsval \<Rightarrow> jsval \<Rightarrow> transactionQueue" where
  "constructor p sg =
     \<lparr>provider = p, signer = sg, queue = [], processing = False, currentNonce = None,
      maxRetries = 3, baseDelay = 1000, maxDelay = 30000\<rparr>"

definition setProviderAndSigner :: "jsval \<Rightarrow> jsval \<Rightarrow> transactionQueue \<Rightarrow> transactionQueue" where
  "setProviderAndSigner p sg q = q\<lparr>provider := p, signer := sg\<rparr>"

subsection \<open>Status, statistics, nonce and delay\<close>

record txSnapshot =
  snId :: string
  snType :: jsval
  snStatus :: txStatus
  snRetryCount :: nat
  snCreatedAt :: nat
  snLastAttempt :: "nat option"
  snError :: "jsval option"
  snResult :: "jsval option"

definition snapshot :: "queuedTransaction \<Rightarrow> txSnapshot" where
  "snapshot t =
     \<lparr>snId = txId t, snType = txType t, snStatus = status t, snRetryCount = retryCount t,
      snCreatedAt = createdAt t, snLastAttempt = lastAttempt t, snError = txError t,
      snResult = txResult t\<rparr>"

text \<open>\<open>getStatus\<close>: \<open>None\<close> is the \<open>null\<close> returned when \<open>this.queue.find\<close> finds nothing.\<close>

definition getStatus :: "string \<Rightarrow> transactionQueue \<Rightarrow> txSnapshot option" where
  "getStatus ident q = map_option snapshot (find (\<lambda>tx. txId tx = ident) (queue q))"

text \<open>\<open>clearCompleted\<close> and \<open>clearAll\<close>: the number cleared and the queue object left.\<close>

definition clearCompleted :: "transactionQueue \<Rightarrow> nat \<times> transactionQueue" where
  "clearCompleted q =
     (let kept = filter (\<lambda>tx. status tx \<noteq> COMPLETED) (queue q)
      in (length (queue q) - length kept, q\<lparr>queue := kept\<rparr>))"


text \<open>
  The object literal of \<open>getStats\<close> names the key \<open>processing\<close> twice, first with \<open>0\<close> and
  then with \<open>this.processing\<close>. A JavaScript object holds one property per key and the later
  value wins, so the object has five properties and \<open>processing\<close> starts as the boolean.
  \<open>stats[tx.status.toLowerCase()]++\<close> then increments the property named after the status.
\<close>

record stats =
  total :: nat
  pending :: nat
  processingKey :: jsval
  completed :: nat
  failed :: nat

fun countStatus :: "stats \<Rightarrow> txStatus \<Rightarrow> stats" where
  "countStatus st PENDING = st\<lparr>pending := pending st + 1\<rparr>"
| "countStatus st PROCESSING = st\<lparr>processingKey := increment (processingKey st)\<rparr>"
| "countStatus st COMPLETED = st\<lparr>completed := completed st + 1\<rparr>"
| "countStatus st FAILED = st\<lparr>failed := failed st + 1\<rparr>"

definition getStats :: "transactionQueue \<Rightarrow> stats" where
  "getStats q =
     foldl countStatus
       \<lparr>total = length (queue q), pending = 0, processingKey = JBool (processing q),
        completed = 0, failed = 0\<rparr>
       (map status (queue q))"


text \<open>\<open>calculateRetryDelay\<close>; \<open>random\<close> is the value \<open>Math.random()\<close> returned, taken as a
  real number in \<open>[0, 1)\<close>.\<close>

definition calculateRetryDelay :: "transactionQueue \<Rightarrow> real \<Rightarrow> nat \<Rightarrow> int" where
  "calculateRetryDelay q random n =
     (let delay = min (real (baseDelay q) * 2 ^ n) (real (maxDelay q));
          jitter = random * 0.1 * delay
      in \<lfloor>delay + jitter\<rfloor>)"

section \<open>Processing\<close>

text \<open>
  \<open>process\<close> is an \<open>async\<close> method: it runs until an \<open>await\<close> suspends it and is resumed
  when the awaited promise settles. It awaits in two places, \<open>signer.getNonce()\<close> inside
  \<open>initializeNonce\<close> and the contract call inside \<open>processTransaction\<close>. As long as
  \<open>clearAll\<close> is not called, the guard on \<open>this.processing\<close> admits one activation at a
  time; \<open>pc\<close> records where that activation is suspended. \<open>console\<close> keeps four of the
  lines the source prints, newest first: "Transaction queued", "Processing transaction",
  "Removed transaction from queue" (with the transaction as it was removed) and
  "Initialized nonce". \<open>timers\<close> holds the timers set
  with \<open>setTimeout\<close> that have not fired yet, newest first, each as its delay: what
  \<open>calculateRetryDelay\<close> returns, as a function of the value \<open>Math.random()\<close> gave it.
\<close>

datatype activation = Idle | AwaitNonce | AwaitSubmit

datatype logEntry =
    Queued string
  | Dispatched string
  | Removed queuedTransaction
  | NonceInitialized nat

record runtime =
  tq :: transactionQueue
  pc :: activation
  console :: "logEntry list"
  timers :: "(real \<Rightarrow> int) list"

definition boot :: "jsval \<Rightarrow> jsval \<Rightarrow> runtime" where
  "boot p sg = \<lparr>tq = constructor p sg, pc = Idle, console = [], timers = []\<rparr>"

text \<open>
  \<open>processTransaction\<close> up to its \<open>await\<close>, and from there on. \<open>Inr result\<close> is the value
  the contract call resolved with, \<open>Inl reason\<close> the value it was rejected with, which the
  \<open>catch\<close> block receives as \<open>error\<close>. The block sets the status, then reads
  \<open>error.message\<close>, then counts the retry. Reading a property of \<open>null\<close> or \<open>undefined\<close>
  throws a TypeError: for such a reason the status is FAILED already, \<open>error\<close> and
  \<open>retryCount\<close> are left as they were, and the exception leaves \<open>processTransaction\<close>.
\<close>

definition markProcessing :: "nat \<Rightarrow> queuedTransaction \<Rightarrow> queuedTransaction" where
  "markProcessing now transaction = transaction\<lparr>status := PROCESSING, lastAttempt := Some now\<rparr>"

definition messageThrows :: "jsval + jsval \<Rightarrow> bool" where
  "messageThrows outcome \<longleftrightarrow> outcome = Inl JUndefined \<or> outcome = Inl JNull"

definition settle :: "jsval + jsval \<Rightarrow> queuedTransaction \<Rightarrow> queuedTransaction" where
  "settle outcome transaction =
     (case outcome of
        Inr res \<Rightarrow> transaction\<lparr>status := COMPLETED, txResult := Some res, txError := None\<rparr>
      | Inl reason \<Rightarrow>
          if reason = JUndefined \<or> reason = JNull then transaction\<lparr>status := FAILED\<rparr>
          else transaction\<lparr>status := FAILED, txError := Some (getProp reason ''message''),
                 retryCount := retryCount transaction + 1\<rparr>)"

text \<open>The \<open>finally\<close> block of \<open>process\<close>: the flag is cleared, and when the queue still
  holds a transaction that is PENDING or FAILED with retries left, a timer is set that
  will call \<open>process\<close>; its delay is computed from the retry count of the first such
  transaction.\<close>

definition nextPendingTransaction :: "transactionQueue \<Rightarrow> queuedTransaction option" where
  "nextPendingTransaction q =
     find (\<lambda>tx. status tx = PENDING \<or> (status tx = FAILED \<and> retryCount tx < maxRetries q)) (queue q)"

definition processFinally :: "runtime \<Rightarrow> runtime" where
  "processFinally s =
     (let s1 = s\<lparr>tq := (tq s)\<lparr>processing := False\<rparr>, pc := Idle\<rparr>
      in if queue (tq s1) = [] then s1
         else (case nextPendingTransaction (tq s1) of
                 None \<Rightarrow> s1
               | Some tx \<Rightarrow>
                   s1\<lparr>timers := (\<lambda>random. calculateRetryDelay (tq s1) random (retryCount tx))
                                  # timers s1\<rparr>))"

text \<open>The second half of the loop body, after the attempt: remove the head, stop, or go
  round again.\<close>

datatype verdict = Shift | Break | Again

definition afterAttempt :: "nat \<Rightarrow> queuedTransaction \<Rightarrow> verdict" where
  "afterAttempt maxR transaction =
     (if status transaction = COMPLETED \<or> (status transaction = FAILED \<and> retryCount transaction \<ge> maxR)
        then Shift
      else if status transaction = FAILED then Break
      else Again)"

definition shift :: "runtime \<Rightarrow> runtime" where
  "shift s =
     (case queue (tq s) of
        [] \<Rightarrow> s
      | transaction # rest \<Rightarrow>
          s\<lparr>tq := (tq s)\<lparr>queue := rest\<rparr>, console := Removed transaction # console s\<rparr>)"

text \<open>The call of \<open>processTransaction\<close> on the head of the queue, up to its \<open>await\<close>:
  the head is marked and the activation is suspended.\<close>

definition attempt :: "nat \<Rightarrow> runtime \<Rightarrow> runtime" where
  "attempt now s =
     (case queue (tq s) of
        [] \<Rightarrow> s
      | transaction # rest \<Rightarrow>
          s\<lparr>tq := (tq s)\<lparr>queue := markProcessing now transaction # rest\<rparr>,
            pc := AwaitSubmit,
            console := Dispatched (txId transaction) # console s\<rparr>)"

text \<open>
  The \<open>while\<close> loop from its condition up to the next suspension or to its exit. A head
  that is PENDING or FAILED is handed to \<open>processTransaction\<close>, which suspends the
  activation. A head in any other state is not attempted; when it is neither removed nor
  a reason to stop, the body changes nothing and the loop goes round for ever, which is
  the value \<open>None\<close>.
\<close>

partial_function (option) whileLoop :: "nat \<Rightarrow> runtime \<Rightarrow> runtime option" where
  "whileLoop now s =
     (case queue (tq s) of
        [] \<Rightarrow> Some (processFinally s)
      | transaction # rest \<Rightarrow>
          if status transaction = PENDING \<or> status transaction = FAILED
          then Some (attempt now s)
          else (case afterAttempt (maxRetries (tq s)) transaction of
                  Shift \<Rightarrow> whileLoop now (shift s)
                | Break \<Rightarrow> Some (processFinally s)
                | Again \<Rightarrow> whileLoop now s))"

text \<open>\<open>process()\<close> from its call to its first suspension or return.\<close>

definition process :: "nat \<Rightarrow> runtime \<Rightarrow> runtime option" where
  "process now s =
     (if processing (tq s) then Some s
      else if queue (tq s) = [] then Some s
      else if \<not> truthy (signer (tq s)) then Some s
      else if currentNonce (tq s) = None
        then Some (s\<lparr>tq := (tq s)\<lparr>processing := True\<rparr>, pc := AwaitNonce\<rparr>)
      else whileLoop now (s\<lparr>tq := (tq s)\<lparr>processing := True\<rparr>\<rparr>))"

text \<open>\<open>getNonce\<close> settles: \<open>Some n\<close> is stored and the loop starts; on a rejection
  \<open>initializeNonce\<close> rethrows, \<open>process\<close> catches and runs its \<open>finally\<close> block.\<close>

definition nonceSettled :: "nat option \<Rightarrow> nat \<Rightarrow> runtime \<Rightarrow> runtime option" where
  "nonceSettled answer now s =
     (case answer of
        None \<Rightarrow> Some (processFinally s)
      | Some n \<Rightarrow>
          whileLoop now
            (s\<lparr>tq := (tq s)\<lparr>currentNonce := Some n\<rparr>, console := NonceInitialized n # console s\<rparr>))"

text \<open>The contract call settles: \<open>processTransaction\<close> finishes on the transaction it was
  given, the head of the queue. When its \<open>catch\<close> block throws, \<open>process\<close> catches and
  runs its \<open>finally\<close> block; otherwise the loop body continues behind the \<open>await\<close>.\<close>

definition submitSettled :: "jsval + jsval \<Rightarrow> nat \<Rightarrow> runtime \<Rightarrow> runtime option" where
  "submitSettled outcome now s =
     (case queue (tq s) of
        [] \<Rightarrow> Some s
      | transaction # rest \<Rightarrow>
          let s1 = s\<lparr>tq := (tq s)\<lparr>queue := settle outcome transaction # rest\<rparr>\<rparr>
          in if messageThrows outcome then Some (processFinally s1)
             else (case afterAttempt (maxRetries (tq s)) (settle outcome transaction) of
                     Shift \<Rightarrow> whileLoop now (shift s1)
                   | Break \<Rightarrow> Some (processFinally s1)
                   | Again \<Rightarrow> whileLoop now s1))"

text \<open>\<open>enqueue\<close>: \<open>uuid\<close> is what \<open>uuidv4()\<close> returned and \<open>now\<close> the clock. The result
  pairs what the caller gets with the state left behind; the call of \<open>process\<close> is not
  awaited, so it contributes its first segment.\<close>

definition pendingTransaction :: "jsval \<Rightarrow> string \<Rightarrow> nat \<Rightarrow> queuedTransaction" where
  "pendingTransaction transaction uuid now =
     \<lparr>txId = uuid, txType = getProp transaction ''type'', txData = getProp transaction ''data'',
      status = PENDING, retryCount = 0, createdAt = now, lastAttempt = None, txError = None,
      txResult = None\<rparr>"

definition enqueue ::
  "(jsval \<Rightarrow> bool) \<Rightarrow> jsval \<Rightarrow> string \<Rightarrow> nat \<Rightarrow> runtime \<Rightarrow> ((error + string) \<times> runtime) option" where
  "enqueue isAddress transaction uuid now s =
     (case validateTransaction isAddress transaction of
        Inl e \<Rightarrow> Some (Inl e, s)
      | Inr ok \<Rightarrow>
          let s1 = s\<lparr>tq := (tq s)\<lparr>queue := queue (tq s) @ [pendingTransaction transaction uuid now]\<rparr>,
                     console := Queued uuid # console s\<rparr>
          in map_option (Pair (Inr uuid))
               (if \<not> processing (tq s1) then process now s1 else Some s1))"

subsection \<open>Runs\<close>


datatype event =
    Enqueue jsval string nat
  | ProcessCall nat
  | TimerFired nat nat
  | NonceSettled "nat option" nat
  | SubmitSettled "jsval + jsval" nat
  | SetProviderAndSigner jsval jsval
  | ClearCompleted

fun step :: "(jsval \<Rightarrow> bool) \<Rightarrow> event \<Rightarrow> runtime \<Rightarrow> runtime option" where
  "step isAddress (Enqueue transaction uuid now) s =
     map_option snd (enqueue isAddress transaction uuid now s)"
| "step isAddress (ProcessCall now) s = process now s"
| "step isAddress (TimerFired i now) s =
     (if i < length (timers s)
      then process now (s\<lparr>timers := take i (timers s) @ drop (Suc i) (timers s)\<rparr>)
      else Some s)"
| "step isAddress (NonceSettled answer now) s =
     (if pc s = AwaitNonce then nonceSettled answer now s else Some s)"
| "step isAddress (SubmitSettled outcome now) s =
     (if pc s = AwaitSubmit then submitSettled outcome now s else Some s)"
| "step isAddress (SetProviderAndSigner p sg) s = Some (s\<lparr>tq := setProviderAndSigner p sg (tq s)\<rparr>)"
| "step isAddress ClearCompleted s = Some (s\<lparr>tq := snd (clearCompleted (tq s))\<rparr>)"

fun run :: "(jsval \<Rightarrow> bool) \<Rightarrow> event list \<Rightarrow> runtime \<Rightarrow> runtime option" where
  "run isAddress [] s = Some s"
| "run isAddress (e # es) s =
     (case step isAddress e s of None \<Rightarrow> None | Some s' \<Rightarrow> run isAddress es s')"

section \<open>Payloads of the test suite\<close>

text \<open>The transactions of the tests "should pass validation with valid LOG transaction" and
  "should pass validation with valid NFT transaction", and the one address they use.\<close>

definition testAddress :: jsval where
  "testAddress = JStr ''0x1234567890123456789012345678901234567890''"

definition isTestAddress :: "jsval \<Rightarrow> bool" where
  "isTestAddress v \<longleftrightarrow> v = testAddress"

definition logData :: "jsval \<Rightarrow> jsval" where
  "logData betAmount =
     JObj [(''gameType'', JStr ''ROULETTE''), (''playerAddress'', testAddress),
           (''betAmount'', betAmount), (''payout'', JNum (1 / 2)),
           (''result'', JObj [(''winningNumber'', JNum 17)])]"

definition validLogTransaction :: jsval where
  "validLogTransaction = JObj [(''type'', JStr ''LOG''), (''data'', logData (JNum (1 / 10)))]"


section \<open>Invariants of a run\<close>

text \<open>A transaction that no attempt has touched yet.\<close>

definition untouched :: "queuedTransaction \<Rightarrow> bool" where
  "untouched t \<longleftrightarrow> status t = PENDING \<and> retryCount t = 0 \<and> lastAttempt t = None"

text \<open>
  What holds between two events: \<open>this.processing\<close> is set exactly while an activation is
  suspended; an activation waiting for the contract call has the head of the queue in
  state PROCESSING; otherwise the head is untouched or FAILED with retries left; and
  everything behind the head is untouched.
\<close>

definition consistent :: "runtime \<Rightarrow> bool" where
  "consistent s \<longleftrightarrow>
     maxRetries (tq s) = 3 \<and>
     (processing (tq s) \<longleftrightarrow> pc s \<noteq> Idle) \<and>
     (pc s = AwaitNonce \<longrightarrow> currentNonce (tq s) = None) \<and>
     (case queue (tq s) of
        [] \<Rightarrow> pc s = Idle
      | h # rest \<Rightarrow>
          list_all untouched rest \<and>
          (if pc s = AwaitSubmit then status h = PROCESSING \<and> retryCount h < 3
           else untouched h \<or> (status h = FAILED \<and> retryCount h < 3)))"

subsection \<open>Reading the console\<close>


fun removedOrder :: "logEntry list \<Rightarrow> string list" where
  "removedOrder [] = []"
| "removedOrder (Queued i # older) = removedOrder older"
| "removedOrder (Dispatched i # older) = removedOrder older"
| "removedOrder (Removed t # older) = removedOrder older @ [txId t]"
| "removedOrder (NonceInitialized n # older) = removedOrder older"

fun nonceReads :: "logEntry list \<Rightarrow> nat list" where
  "nonceReads [] = []"
| "nonceReads (Queued i # older) = nonceReads older"
| "nonceReads (Dispatched i # older) = nonceReads older"
| "nonceReads (Removed t # older) = nonceReads older"
| "nonceReads (NonceInitialized n # older) = nonceReads older @ [n]"

text \<open>The identifiers queued and not yet removed, oldest first, as the console tells it.\<close>

fun live :: "logEntry list \<Rightarrow> string list" where
  "live [] = []"
| "live (Queued i # older) = live older @ [i]"
| "live (Dispatched i # older) = live older"
| "live (Removed t # older) = tl (live older)"
| "live (NonceInitialized n # older) = live older"

text \<open>A transaction as the loop removes it: completed within the attempts allowed, or
  failed for the third time.\<close>

definition removable :: "queuedTransaction \<Rightarrow> bool" where
  "removable t \<longleftrightarrow>
     (status t = COMPLETED \<and> retryCount t < 3) \<or> (status t = FAILED \<and> retryCount t = 3)"

text \<open>A console on which every attempt and every removal concerns the oldest transaction
  still queued at that moment, and every removal a transaction that is \<open>removable\<close>.\<close>

fun fifo :: "logEntry list \<Rightarrow> bool" where
  "fifo [] = True"
| "fifo (Queued i # older) = fifo older"
| "fifo (Dispatched i # older) = (fifo older \<and> live older \<noteq> [] \<and> hd (live older) = i)"
| "fifo (Removed t # older) =
     (fifo older \<and> removable t \<and> live older \<noteq> [] \<and> hd (live older) = txId t)"
| "fifo (NonceInitialized n # older) = fifo older"

definition logged :: "runtime \<Rightarrow> bool" where
  "logged s \<longleftrightarrow> fifo (console s) \<and> live (console s) = map txId (queue (tq s))"

definition nonceTracked :: "runtime \<Rightarrow> bool" where
  "nonceTracked s \<longleftrightarrow>
     nonceReads (console s) = (case currentNonce (tq s) of None \<Rightarrow> [] | Some n \<Rightarrow> [n])"

section \<open>Properties\<close>

subsection \<open>The \<open>finally\<close> block\<close>

lemma processFinally_tq [simp]: "tq (processFinally s) = (tq s)\<lparr>processing := False\<rparr>"
  by (simp add: processFinally_def Let_def split: option.splits)

lemma processFinally_pc [simp]: "pc (processFinally s) = Idle"
  by (simp add: processFinally_def Let_def split: option.splits)

lemma processFinally_console [simp]: "console (processFinally s) = console s"
  by (simp add: processFinally_def Let_def split: option.splits)

lemma processFinally_timers:
  "timers (processFinally s) =
     (case nextPendingTransaction ((tq s)\<lparr>processing := False\<rparr>) of
        None \<Rightarrow> timers s
      | Some tx \<Rightarrow> (\<lambda>random. calculateRetryDelay ((tq s)\<lparr>processing := False\<rparr>) random (retryCount tx))
                   # timers s)"
  by (cases "queue (tq s)")
    (simp_all add: processFinally_def Let_def nextPendingTransaction_def split: option.splits)

lemma settle_throws:
  "messageThrows outcome \<Longrightarrow> settle outcome h = h\<lparr>status := FAILED\<rparr>"
  by (auto simp: messageThrows_def settle_def)

lemma settle_resolved:
  "settle (Inr res) h = h\<lparr>status := COMPLETED, txResult := Some res, txError := None\<rparr>"
  by (simp add: settle_def)

lemma settle_rejected:
  "reason \<noteq> JUndefined \<Longrightarrow> reason \<noteq> JNull \<Longrightarrow>
   settle (Inl reason) h = h\<lparr>status := FAILED, txError := Some (getProp reason ''message''),
                              retryCount := retryCount h + 1\<rparr>"
  by (simp add: settle_def)

text \<open>The invariants do not read the timers.\<close>

lemma consistent_timers [simp]: "consistent (s\<lparr>timers := ts\<rparr>) = consistent s"
  by (cases "queue (tq s)") (simp_all add: consistent_def)

lemma logged_timers [simp]: "logged (s\<lparr>timers := ts\<rparr>) = logged s"
  by (simp add: logged_def)

lemma nonceTracked_timers [simp]: "nonceTracked (s\<lparr>timers := ts\<rparr>) = nonceTracked s"
  by (simp add: nonceTracked_def)

subsection \<open>The loop and the invariant\<close>

lemma whileLoop_empty:
  "queue (tq s) = [] \<Longrightarrow> whileLoop now s = Some (processFinally s)"
  by (subst whileLoop.simps) simp

lemma whileLoop_attempt:
  "queue (tq s) = t # rest \<Longrightarrow> status t = PENDING \<or> status t = FAILED \<Longrightarrow>
   whileLoop now s = Some (attempt now s)"
  by (subst whileLoop.simps) simp

lemma boot_consistent: "consistent (boot p sg)"
  by (simp add: consistent_def boot_def constructor_def)

text \<open>The loop entered with the flag set and a head that can be attempted.\<close>

lemma whileLoop_consistent:
  assumes "maxRetries (tq s) = 3" and "processing (tq s)"
    and "case queue (tq s) of [] \<Rightarrow> True
         | h # rest \<Rightarrow> list_all untouched rest \<and> (untouched h \<or> (status h = FAILED \<and> retryCount h < 3))"
  shows "\<exists>s'. whileLoop now s = Some s' \<and> consistent s'"
proof (cases "queue (tq s)")
  case Nil
  then show ?thesis using assms
    by (simp add: whileLoop_empty consistent_def)
next
  case (Cons h rest)
  then have "status h = PENDING \<or> status h = FAILED"
    using assms(3) by (auto simp: untouched_def)
  from whileLoop_attempt[OF Cons this] Cons assms show ?thesis
    by (auto simp: consistent_def attempt_def markProcessing_def untouched_def)
qed

lemma process_consistent:
  assumes "consistent s"
  shows "\<exists>s'. process now s = Some s' \<and> consistent s'"
proof -
  consider "processing (tq s) \<or> queue (tq s) = [] \<or> \<not> truthy (signer (tq s))"
    | "\<not> processing (tq s)" "queue (tq s) \<noteq> []" "truthy (signer (tq s))" "currentNonce (tq s) = None"
    | "\<not> processing (tq s)" "queue (tq s) \<noteq> []" "truthy (signer (tq s))" "currentNonce (tq s) \<noteq> None"
    by blast
  then show ?thesis
  proof cases
    case 1
    then show ?thesis using assms by (auto simp: process_def)
  next
    case 2
    then show ?thesis using assms
      by (auto simp: process_def consistent_def split: list.splits)
  next
    case 3
    have "\<exists>s'. whileLoop now (s\<lparr>tq := (tq s)\<lparr>processing := True\<rparr>\<rparr>) = Some s' \<and> consistent s'"
      using assms 3 by (intro whileLoop_consistent) (auto simp: consistent_def split: list.splits)
    then show ?thesis using 3 by (auto simp: process_def)
  qed
qed

lemma enqueue_consistent:
  assumes "consistent s"
  shows "\<exists>r s'. enqueue isAddress transaction uuid now s = Some (r, s') \<and> consistent s'"
proof (cases "validateTransaction isAddress transaction")
  case (Inl e)
  then show ?thesis using assms by (simp add: enqueue_def)
next
  case (Inr ok)
  define s1 where "s1 = s\<lparr>tq := (tq s)\<lparr>queue := queue (tq s) @ [pendingTransaction transaction uuid now]\<rparr>,
      console := Queued uuid # console s\<rparr>"
  have c1: "consistent s1"
    using assms
    by (auto simp: consistent_def s1_def pendingTransaction_def untouched_def split: list.splits)
  have e: "enqueue isAddress transaction uuid now s =
      map_option (Pair (Inr uuid)) (if \<not> processing (tq s1) then process now s1 else Some s1)"
    using Inr by (simp add: enqueue_def s1_def Let_def)
  show ?thesis
  proof (cases "processing (tq s1)")
    case True
    then show ?thesis using e c1 by simp
  next
    case False
    from process_consistent[OF c1, of now] obtain s' where "process now s1 = Some s'" "consistent s'"
      by blast
    then show ?thesis using e False by simp
  qed
qed


lemma nonceSettled_consistent:
  assumes "consistent s" "pc s = AwaitNonce"
  shows "\<exists>s'. nonceSettled answer now s = Some s' \<and> consistent s'"
proof (cases answer)
  case None
  then show ?thesis using assms
    by (auto simp: nonceSettled_def consistent_def split: list.splits)
next
  case (Some n)
  have "\<exists>s'. whileLoop now (s\<lparr>tq := (tq s)\<lparr>currentNonce := Some n\<rparr>,
                 console := NonceInitialized n # console s\<rparr>) = Some s' \<and> consistent s'"
    using assms by (intro whileLoop_consistent) (auto simp: consistent_def split: list.splits)
  then show ?thesis using Some by (simp add: nonceSettled_def)
qed

lemma submitSettled_consistent:
  assumes "consistent s" "pc s = AwaitSubmit"
  shows "\<exists>s'. submitSettled outcome now s = Some s' \<and> consistent s'"
proof -
  from assms obtain h rest where q: "queue (tq s) = h # rest"
    and h: "status h = PROCESSING" "retryCount h < 3" and r: "list_all untouched rest"
    and m: "maxRetries (tq s) = 3" and p: "processing (tq s)"
    by (cases "queue (tq s)") (auto simp: consistent_def)
  define s1 where "s1 = s\<lparr>tq := (tq s)\<lparr>queue := settle outcome h # rest\<rparr>\<rparr>"
  show ?thesis
  proof (cases "messageThrows outcome")
    case True
    then have "status (settle outcome h) = FAILED" "retryCount (settle outcome h) < 3"
      using h by (simp_all add: settle_throws)
    then have "consistent (processFinally s1)"
      using r m by (auto simp: consistent_def s1_def)
    then show ?thesis using True q by (simp add: submitSettled_def s1_def Let_def)
  next
    case False
    show ?thesis
    proof (cases "afterAttempt 3 (settle outcome h)")
      case Shift
      have "\<exists>s'. whileLoop now (shift s1) = Some s' \<and> consistent s'"
        using r m p by (intro whileLoop_consistent) (auto simp: shift_def s1_def split: list.splits)
      then show ?thesis using Shift False q m by (simp add: submitSettled_def s1_def Let_def)
    next
      case Break
      then have "status (settle outcome h) = FAILED" "retryCount (settle outcome h) < 3"
        by (auto simp: afterAttempt_def split: if_splits)
      then have "consistent (processFinally s1)"
        using r m by (auto simp: consistent_def s1_def)
      then show ?thesis using Break False q m by (simp add: submitSettled_def s1_def Let_def)
    next
      case Again
      then have False
        by (cases outcome) (auto simp: afterAttempt_def settle_def split: if_splits)
      then show ?thesis ..
    qed
  qed
qed

text \<open>Between two events no transaction in the queue is COMPLETED: \<open>clearCompleted\<close>
  finds nothing to clear.\<close>

lemma clearCompleted_consistent:
  assumes "consistent s"
  shows "clearCompleted (tq s) = (0, tq s)"
proof -
  have "\<forall>t\<in>set (queue (tq s)). status t \<noteq> COMPLETED"
    using assms
    by (cases "queue (tq s)") (auto simp: consistent_def untouched_def list_all_iff split: if_splits)
  then have "filter (\<lambda>tx. status tx \<noteq> COMPLETED) (queue (tq s)) = queue (tq s)"
    by (simp add: filter_id_conv)
  then show ?thesis by (simp add: clearCompleted_def)
qed

lemma step_consistent:
  assumes "consistent s"
  shows "\<exists>s'. step isAddress e s = Some s' \<and> consistent s'"
proof (cases e)
  case (Enqueue transaction uuid now)
  then show ?thesis using enqueue_consistent[OF assms, of isAddress transaction uuid now] by auto
next
  case (ProcessCall now)
  then show ?thesis using process_consistent[OF assms] by simp
next
  case (TimerFired i now)
  have "consistent (s\<lparr>timers := take i (timers s) @ drop (Suc i) (timers s)\<rparr>)"
    using assms by simp
  from process_consistent[OF this, of now] show ?thesis using TimerFired assms by auto
next
  case (NonceSettled answer now)
  then show ?thesis using nonceSettled_consistent[OF assms] assms by auto
next
  case (SubmitSettled outcome now)
  then show ?thesis using submitSettled_consistent[OF assms] assms by auto
next
  case (SetProviderAndSigner p sg)
  then show ?thesis using assms
    by (auto simp: consistent_def setProviderAndSigner_def split: list.splits)
next
  case ClearCompleted
  then show ?thesis using assms by (simp add: clearCompleted_consistent)
qed

lemma run_consistent:
  "consistent s \<Longrightarrow> \<exists>s'. run isAddress es s = Some s' \<and> consistent s'"
proof (induction es arbitrary: s)
  case Nil
  then show ?case by simp
next
  case (Cons e es)
  from step_consistent[OF Cons.prems, of isAddress e] obtain s1
    where "step isAddress e s = Some s1" "consistent s1" by blast
  then show ?case using Cons.IH[of s1] by simp
qed

lemma validLogTransaction_ok: "validateTransaction isTestAddress validLogTransaction = Inr ()"
  by (simp add: validLogTransaction_def logData_def isTestAddress_def testAddress_def
      validateTransaction_def validateLogTransaction_def)

subsection \<open>What an event does, in closed form\<close>

lemma whileLoop_ready:
  assumes "case queue (tq s) of [] \<Rightarrow> True | h # rest \<Rightarrow> status h = PENDING \<or> status h = FAILED"
  shows "whileLoop now s = Some (if queue (tq s) = [] then processFinally s else attempt now s)"
proof (cases "queue (tq s)")
  case Nil
  then show ?thesis by (simp add: whileLoop_empty)
next
  case (Cons h rest)
  then show ?thesis using assms whileLoop_attempt[OF Cons] by simp
qed

lemma consistent_head:
  assumes "consistent s" and "pc s \<noteq> AwaitSubmit"
  shows "case queue (tq s) of [] \<Rightarrow> True | h # rest \<Rightarrow> status h = PENDING \<or> status h = FAILED"
  using assms by (auto simp: consistent_def untouched_def split: list.splits)

lemma process_result:
  assumes "consistent s"
  shows "process now s = Some
     (if processing (tq s) \<or> queue (tq s) = [] \<or> \<not> truthy (signer (tq s)) then s
      else if currentNonce (tq s) = None
        then s\<lparr>tq := (tq s)\<lparr>processing := True\<rparr>, pc := AwaitNonce\<rparr>
      else attempt now (s\<lparr>tq := (tq s)\<lparr>processing := True\<rparr>\<rparr>))"
proof -
  have "whileLoop now (s\<lparr>tq := (tq s)\<lparr>processing := True\<rparr>\<rparr>)
      = Some (attempt now (s\<lparr>tq := (tq s)\<lparr>processing := True\<rparr>\<rparr>))"
    if "\<not> processing (tq s)" "queue (tq s) \<noteq> []"
  proof -
    have "pc s \<noteq> AwaitSubmit" using assms that by (auto simp: consistent_def)
    from consistent_head[OF assms this] that(2)
    show ?thesis by (subst whileLoop_ready) (auto split: list.splits)
  qed
  then show ?thesis by (auto simp: process_def)
qed


lemma submitSettled_result:
  assumes "consistent s" and "pc s = AwaitSubmit" and "queue (tq s) = h # rest"
  shows "submitSettled outcome now s = Some
     (if status (settle outcome h) = COMPLETED \<or> retryCount (settle outcome h) \<ge> 3
      then (if rest = []
            then processFinally (s\<lparr>tq := (tq s)\<lparr>queue := rest\<rparr>,
                                   console := Removed (settle outcome h) # console s\<rparr>)
            else attempt now (s\<lparr>tq := (tq s)\<lparr>queue := rest\<rparr>,
                                console := Removed (settle outcome h) # console s\<rparr>))
      else processFinally (s\<lparr>tq := (tq s)\<lparr>queue := settle outcome h # rest\<rparr>\<rparr>))"
proof -
  have m: "maxRetries (tq s) = 3" and r: "list_all untouched rest"
    using assms by (auto simp: consistent_def)
  have h: "retryCount h < 3"
    using assms by (auto simp: consistent_def)
  have st: "status (settle outcome h) = COMPLETED \<or> status (settle outcome h) = FAILED"
    by (cases outcome) (auto simp: settle_def)
  let ?s2 = "s\<lparr>tq := (tq s)\<lparr>queue := rest\<rparr>, console := Removed (settle outcome h) # console s\<rparr>"
  have w: "whileLoop now ?s2 = Some (if rest = [] then processFinally ?s2 else attempt now ?s2)"
    using r by (subst whileLoop_ready) (auto simp: untouched_def split: list.splits)
  show ?thesis
  proof (cases "messageThrows outcome")
    case True
    then have "status (settle outcome h) = FAILED" "retryCount (settle outcome h) < 3"
      using h by (simp_all add: settle_throws)
    then show ?thesis using True assms(3)
      by (simp add: submitSettled_def Let_def)
  next
    case nothrow: False
    show ?thesis
    proof (cases "status (settle outcome h) = COMPLETED \<or> retryCount (settle outcome h) \<ge> 3")
      case True
      then have "afterAttempt 3 (settle outcome h) = Shift"
        using st by (auto simp: afterAttempt_def)
      then show ?thesis using True nothrow assms(3) m w
        by (simp add: submitSettled_def shift_def Let_def)
    next
      case False
      then have "afterAttempt 3 (settle outcome h) = Break"
        using st by (auto simp: afterAttempt_def)
      then show ?thesis using False nothrow assms(3) m
        by (simp add: submitSettled_def Let_def)
    qed
  qed
qed


subsection \<open>Validation\<close>

lemma validateLog_rejects:
  assumes "\<not> isAddress (getProp d ''playerAddress'') \<or> ltZero (getProp d ''betAmount'')
           \<or> ltZero (getProp d ''payout'') \<or> getProp d ''result'' = JUndefined
           \<or> getProp d ''result'' = JNull"
  shows "\<exists>e. validateLogTransaction isAddress d = Inl e"
  using assms by (auto simp: validateLogTransaction_def split: option.splits)

lemma validateNFT_rejects:
  assumes "\<not> truthy (getProp (getProp d ''metadata'') ''name'')
           \<or> \<not> truthy (getProp (getProp d ''metadata'') ''description'')
           \<or> \<not> truthy (getProp (getProp d ''metadata'') ''attributes'')"
  shows "\<exists>e. validateNFTTransaction isAddress d = Inl e"
  using assms by (auto simp: validateNFTTransaction_def split: option.splits)

text \<open>
  C6. A LOG payload with a malformed player address, a negative bet amount, a negative
  payout or a missing or null result, and an NFT payload whose metadata lacks name,
  description or attributes, is rejected by \<open>enqueue\<close> with an error, and the state it
  leaves is the state it found: nothing is queued.
\<close>

theorem enqueue_rejects_malformed:
  assumes "(getProp transaction ''type'' = JStr ''LOG'' \<and>
             (\<not> isAddress (getProp (getProp transaction ''data'') ''playerAddress'')
              \<or> ltZero (getProp (getProp transaction ''data'') ''betAmount'')
              \<or> ltZero (getProp (getProp transaction ''data'') ''payout'')
              \<or> getProp (getProp transaction ''data'') ''result'' = JUndefined
              \<or> getProp (getProp transaction ''data'') ''result'' = JNull))
         \<or> (getProp transaction ''type'' = JStr ''NFT'' \<and>
             (getProp (getProp (getProp transaction ''data'') ''metadata'') ''name'' = JUndefined
              \<or> getProp (getProp (getProp transaction ''data'') ''metadata'') ''description'' = JUndefined
              \<or> getProp (getProp (getProp transaction ''data'') ''metadata'') ''attributes'' = JUndefined))"
  shows "\<exists>e. enqueue isAddress transaction uuid now s = Some (Inl e, s)"
proof -
  have "\<exists>e. validateTransaction isAddress transaction = Inl e"
    using assms validateLog_rejects[of isAddress "getProp transaction ''data''"]
      validateNFT_rejects[of "getProp transaction ''data''" isAddress]
    unfolding validateTransaction_def by (auto simp del: getProp.simps)
  then show ?thesis by (auto simp: enqueue_def)
qed

theorem enqueue_rejects_malformed_witness:
  "getProp (JObj [(''type'', JStr ''LOG''), (''data'', logData (JNum (- 1)))]) ''type'' = JStr ''LOG''
   \<and> ltZero (getProp (getProp (JObj [(''type'', JStr ''LOG''), (''data'', logData (JNum (- 1)))])
                ''data'') ''betAmount'')
   \<and> enqueue isTestAddress (JObj [(''type'', JStr ''LOG''), (''data'', logData (JNum (- 1)))])
        ''tx-1'' 10 (boot JNull JNull)
       = Some (Inl InvalidBetAmount, boot JNull JNull)"
  using enqueue_rejects_malformed
    [of "JObj [(''type'', JStr ''LOG''), (''data'', logData (JNum (- 1)))]" isTestAddress
        "''tx-1''" 10 "boot JNull JNull"]
  by (simp add: enqueue_def validateTransaction_def validateLogTransaction_def logData_def
      isTestAddress_def testAddress_def)



subsection \<open>No signer\<close>

lemma getStats_total: "total (getStats q) = length (queue q)"
proof -
  have "total (foldl countStatus st xs) = total st" for st xs
  proof (induction xs arbitrary: st)
    case Nil
    show ?case by simp
  next
    case (Cons x xs)
    then show ?case by (cases x) simp_all
  qed
  then show ?thesis by (simp add: getStats_def)
qed

lemma getStats_pending:
  assumes "\<forall>t\<in>set (queue q). status t = PENDING"
  shows "pending (getStats q) = length (queue q)"
proof -
  have "\<forall>x\<in>set xs. x = PENDING \<Longrightarrow>
      pending (foldl countStatus st xs) = pending st + length xs" for st xs
    by (induction xs arbitrary: st) simp_all
  from this[of "map status (queue q)"] assms show ?thesis
    by (simp add: getStats_def)
qed

lemma enqueue_no_signer:
  assumes "\<not> truthy (signer (tq s))" and "validateTransaction isAddress transaction = Inr ()"
  shows "enqueue isAddress transaction uuid now s =
     Some (Inr uuid, s\<lparr>tq := (tq s)\<lparr>queue := queue (tq s) @ [pendingTransaction transaction uuid now]\<rparr>,
                        console := Queued uuid # console s\<rparr>)"
  using assms by (simp add: enqueue_def process_def Let_def)

lemma run_enqueues_no_signer:
  assumes "\<not> truthy (signer (tq s))"
    and "\<forall>r\<in>set reqs. validateTransaction isAddress (fst r) = Inr ()"
  shows "run isAddress (map (\<lambda>(t, u, n). Enqueue t u n) reqs) s =
     Some (s\<lparr>tq := (tq s)\<lparr>queue := queue (tq s) @ map (\<lambda>(t, u, n). pendingTransaction t u n) reqs\<rparr>,
             console := rev (map (\<lambda>(t, u, n). Queued u) reqs) @ console s\<rparr>)"
  using assms
proof (induction reqs arbitrary: s)
  case Nil
  then show ?case by simp
next
  case (Cons r reqs)
  obtain t u n where r: "r = (t, u, n)" by (cases r) auto
  let ?s1 = "s\<lparr>tq := (tq s)\<lparr>queue := queue (tq s) @ [pendingTransaction t u n]\<rparr>,
                        console := Queued u # console s\<rparr>"
  have e: "enqueue isAddress t u n s = Some (Inr u, ?s1)"
    using Cons.prems r by (intro enqueue_no_signer) auto
  have "\<not> truthy (signer (tq ?s1))" using Cons.prems by simp
  from Cons.IH[OF this] Cons.prems(2) e r show ?case by simp
qed

text \<open>
  C7. On a queue built without a signer, enqueueing N valid transactions leaves N PENDING
  transactions exactly as \<open>enqueue\<close> built them; \<open>process\<close> then returns and leaves the state
  as it is, and \<open>getStats\<close> reports \<open>total = N\<close>.
\<close>

theorem process_without_signer:
  assumes "\<not> truthy sg" and "\<forall>r\<in>set reqs. validateTransaction isAddress (fst r) = Inr ()"
  shows "\<exists>s. run isAddress (map (\<lambda>(t, u, n). Enqueue t u n) reqs) (boot p sg) = Some s
       \<and> queue (tq s) = map (\<lambda>(t, u, n). pendingTransaction t u n) reqs
       \<and> process now s = Some s
       \<and> total (getStats (tq s)) = length reqs
       \<and> pending (getStats (tq s)) = length reqs"
proof -
  have sg: "\<not> truthy (signer (tq (boot p sg)))"
    using assms(1) by (simp add: boot_def constructor_def)
  let ?s = "(boot p sg)\<lparr>tq := (tq (boot p sg))\<lparr>queue := queue (tq (boot p sg))
                @ map (\<lambda>(t, u, n). pendingTransaction t u n) reqs\<rparr>,
             console := rev (map (\<lambda>(t, u, n). Queued u) reqs) @ console (boot p sg)\<rparr>"
  have r: "run isAddress (map (\<lambda>(t, u, n). Enqueue t u n) reqs) (boot p sg) = Some ?s"
    by (rule run_enqueues_no_signer[OF sg assms(2)])
  have q: "queue (tq ?s) = map (\<lambda>(t, u, n). pendingTransaction t u n) reqs"
    by (simp add: boot_def constructor_def)
  have p: "process now ?s = Some ?s"
    using assms(1) by (simp add: process_def boot_def constructor_def)
  have a: "\<forall>t\<in>set (queue (tq ?s)). status t = PENDING"
    unfolding q by (auto simp: pendingTransaction_def)
  have t: "total (getStats (tq ?s)) = length reqs"
    unfolding getStats_total q by simp
  have pe: "pending (getStats (tq ?s)) = length reqs"
    unfolding getStats_pending[OF a] q by simp
  show ?thesis using r q p t pe by blast
qed

theorem process_without_signer_witness:
  "\<not> truthy JNull
   \<and> validateTransaction isTestAddress validLogTransaction = Inr ()
   \<and> run isTestAddress [Enqueue validLogTransaction ''tx-1'' 10, Enqueue validLogTransaction ''tx-2'' 20]
         (boot JNull JNull)
       = Some \<lparr>tq = (constructor JNull JNull)
                  \<lparr>queue := [pendingTransaction validLogTransaction ''tx-1'' 10,
                             pendingTransaction validLogTransaction ''tx-2'' 20]\<rparr>,
               pc = Idle, console = [Queued ''tx-2'', Queued ''tx-1''], timers = []\<rparr>
   \<and> (\<exists>s. run isTestAddress
             (map (\<lambda>(t, u, n). Enqueue t u n)
                [(validLogTransaction, ''tx-1'', 10), (validLogTransaction, ''tx-2'', 20)])
             (boot JNull JNull) = Some s
          \<and> queue (tq s) = map (\<lambda>(t, u, n). pendingTransaction t u n)
                [(validLogTransaction, ''tx-1'', 10), (validLogTransaction, ''tx-2'', 20)]
          \<and> process 30 s = Some s
          \<and> total (getStats (tq s)) = 2
          \<and> pending (getStats (tq s)) = 2)"
proof -
  have h: "\<forall>r\<in>set [(validLogTransaction, ''tx-1'', 10::nat), (validLogTransaction, ''tx-2'', 20)].
      validateTransaction isTestAddress (fst r) = Inr ()"
    using validLogTransaction_ok by simp
  have n: "\<not> truthy JNull" by simp
  have r: "run isTestAddress
       [Enqueue validLogTransaction ''tx-1'' 10, Enqueue validLogTransaction ''tx-2'' 20]
         (boot JNull JNull)
       = Some \<lparr>tq = (constructor JNull JNull)
                  \<lparr>queue := [pendingTransaction validLogTransaction ''tx-1'' 10,
                             pendingTransaction validLogTransaction ''tx-2'' 20]\<rparr>,
               pc = Idle, console = [Queued ''tx-2'', Queued ''tx-1''], timers = []\<rparr>"
    using validLogTransaction_ok
    by (simp add: enqueue_def process_def boot_def constructor_def Let_def)
  show ?thesis
    using process_without_signer[OF n h, of JNull 30] validLogTransaction_ok r by simp
qed

subsection \<open>Statistics\<close>

text \<open>
  C9. The result of \<open>getStats\<close> has one property \<open>processing\<close>, not a count and a flag.
  While the first transaction of a queue is in flight the loop is active and one
  transaction is PROCESSING; \<open>getStats\<close> then reports \<open>processing = 2\<close>, which is neither
  the count nor the flag.
\<close>

theorem getStats_processing_key:
  "map_option (processing \<circ> tq)
     (run isTestAddress [Enqueue validLogTransaction ''tx-1'' 10, NonceSettled (Some 7) 11]
        (boot JNull (JObj [])))
   = Some True
   \<and> map_option (map status \<circ> queue \<circ> tq)
     (run isTestAddress [Enqueue validLogTransaction ''tx-1'' 10, NonceSettled (Some 7) 11]
        (boot JNull (JObj [])))
   = Some [PROCESSING]
   \<and> map_option (getStats \<circ> tq)
     (run isTestAddress [Enqueue validLogTransaction ''tx-1'' 10, NonceSettled (Some 7) 11]
        (boot JNull (JObj [])))
   = Some \<lparr>total = 1, pending = 0, processingKey = JNum 2, completed = 0, failed = 0\<rparr>"
  using validLogTransaction_ok
  by (simp add: boot_def constructor_def enqueue_def process_def nonceSettled_def whileLoop.simps
      attempt_def markProcessing_def getStats_def pendingTransaction_def Let_def)

subsection \<open>Retry delay\<close>

text \<open>
  C8. With the delays of the constructor (base 1000 ms, cap 30000 ms) and any jitter draw
  in \<open>[0, 1)\<close>, the delay for retry count \<open>n\<close> lies between \<open>min (1000 * 2^n) 30000\<close> and
  that value times 1.1.
\<close>

theorem calculateRetryDelay_bounds:
  assumes "baseDelay q = 1000" and "maxDelay q = 30000" and "0 \<le> random" and "random < 1"
  shows "min (1000 * 2 ^ n) 30000 \<le> calculateRetryDelay q random n
       \<and> real_of_int (calculateRetryDelay q random n)
           \<le> real_of_int (min (1000 * 2 ^ n) 30000) * 1.1"
proof -
  define d :: int where "d = min (1000 * 2 ^ n) 30000"
  have dr: "min (real (baseDelay q) * 2 ^ n) (real (maxDelay q)) = real_of_int d"
    using assms(1,2) by (simp add: d_def of_int_min)
  have d0: "0 \<le> d" by (simp add: d_def)
  have c: "calculateRetryDelay q random n = \<lfloor>real_of_int d + random * 0.1 * real_of_int d\<rfloor>"
    by (simp add: calculateRetryDelay_def Let_def dr)
  have j0: "0 \<le> random * 0.1 * real_of_int d" using assms(3) d0 by simp
  have "random * real_of_int d \<le> 1 * real_of_int d"
    using assms(4) d0 by (intro mult_right_mono) auto
  then have j1: "random * 0.1 * real_of_int d \<le> 0.1 * real_of_int d"
    by simp
  have lo: "d \<le> \<lfloor>real_of_int d + random * 0.1 * real_of_int d\<rfloor>"
    using j0 by (simp add: le_floor_iff)
  have hi: "real_of_int \<lfloor>real_of_int d + random * 0.1 * real_of_int d\<rfloor> \<le> real_of_int d * 1.1"
    using j1 of_int_floor_le[of "real_of_int d + random * 0.1 * real_of_int d"] by linarith
  show ?thesis using lo hi unfolding c d_def by simp
qed

theorem calculateRetryDelay_bounds_witness:
  "baseDelay (constructor JNull JNull) = 1000 \<and> maxDelay (constructor JNull JNull) = 30000
   \<and> (0::real) \<le> 1 / 2 \<and> (1 / 2 :: real) < 1
   \<and> calculateRetryDelay (constructor JNull JNull) (1 / 2) 3 = 8400
   \<and> min (1000 * 2 ^ 3) 30000 \<le> calculateRetryDelay (constructor JNull JNull) (1 / 2) 3
   \<and> real_of_int (calculateRetryDelay (constructor JNull JNull) (1 / 2) 3)
       \<le> real_of_int (min (1000 * 2 ^ 3) 30000) * 1.1"
  using calculateRetryDelay_bounds [of "constructor JNull JNull" "1 / 2" 3]
  by (simp add: constructor_def calculateRetryDelay_def)

subsection \<open>Lists read off the console\<close>




lemma removed_in_order: "Removed t \<in> set l \<Longrightarrow> txId t \<in> set (removedOrder l)"
  by (induction l rule: removedOrder.induct) auto



lemma count_Dispatched_simps [simp]:
  "count_list (Queued i # l) (Dispatched a) = count_list l (Dispatched a)"
  "count_list (Removed t # l) (Dispatched a) = count_list l (Dispatched a)"
  "count_list (NonceInitialized n # l) (Dispatched a) = count_list l (Dispatched a)"
  by simp_all

subsection \<open>The console follows the queue\<close>


lemma settle_txId [simp]: "txId (settle outcome h) = txId h"
  by (cases outcome) (simp_all add: settle_def)









lemmas eval_defs = boot_def constructor_def enqueue_def process_def nonceSettled_def
  submitSettled_def whileLoop.simps attempt_def markProcessing_def settle_def shift_def
  afterAttempt_def processFinally_def nextPendingTransaction_def messageThrows_def
  pendingTransaction_def setProviderAndSigner_def Let_def

lemma in_flight_state:
  "\<exists>s. run isTestAddress [Enqueue validLogTransaction ''tx-1'' 10, NonceSettled (Some 7) 11]
          (boot JNull (JObj [])) = Some s
     \<and> pc s = AwaitSubmit
     \<and> queue (tq s) = [(pendingTransaction validLogTransaction ''tx-1'' 10)
                          \<lparr>status := PROCESSING, lastAttempt := Some 11\<rparr>]
     \<and> signer (tq s) = JObj [] \<and> currentNonce (tq s) = Some 7
     \<and> console s = [Dispatched ''tx-1'', NonceInitialized 7, Queued ''tx-1'']"
  using validLogTransaction_ok by (simp add: eval_defs)


subsection \<open>Strict order\<close>




subsection \<open>Rounds\<close>

lemma run_append:
  "run isAddress (es @ es') s = (case run isAddress es s of None \<Rightarrow> None | Some s1 \<Rightarrow> run isAddress es' s1)"
  by (induction es arbitrary: s) (auto split: option.splits)

text \<open>The timer that the \<open>finally\<close> block sets when the head of the queue is left FAILED
  with retries to go.\<close>

lemma processFinally_retry:
  assumes "queue (tq s) = h # rest" and "status h = FAILED" and "retryCount h < maxRetries (tq s)"
  shows "timers (processFinally s)
       = (\<lambda>random. calculateRetryDelay ((tq s)\<lparr>processing := False\<rparr>) random (retryCount h))
         # timers s"
  using assms by (simp add: processFinally_timers nextPendingTransaction_def)

lemma processFinally_empty:
  "queue (tq s) = [] \<Longrightarrow> timers (processFinally s) = timers s"
  by (simp add: processFinally_timers nextPendingTransaction_def)

lemma attempt_timers [simp]: "timers (attempt now s) = timers s"
  by (cases "queue (tq s)") (simp_all add: attempt_def)

text \<open>A submission fails with a reason that has a message to read: the transaction is
  left FAILED at the head, and a timer is set.\<close>

lemma first_failure:
  assumes "consistent s" and "pc s = AwaitSubmit" and "queue (tq s) = h # rest"
    and "retryCount h < 2" and "reason \<noteq> JUndefined" and "reason \<noteq> JNull"
  shows "\<exists>s'. step isAddress (SubmitSettled (Inl reason) n) s = Some s'
          \<and> consistent s' \<and> pc s' = Idle \<and> signer (tq s') = signer (tq s)
          \<and> currentNonce (tq s') = currentNonce (tq s)
          \<and> queue (tq s') = h\<lparr>status := FAILED, txError := Some (getProp reason ''message''),
                                 retryCount := retryCount h + 1\<rparr> # rest
          \<and> console s' = console s
          \<and> timers s' = (\<lambda>random. calculateRetryDelay (tq s') random (retryCount h + 1))
                         # timers s"
proof -
  have m: "maxRetries (tq s) = 3" using assms(1) by (simp add: consistent_def)
  let ?a = "s\<lparr>tq := (tq s)\<lparr>queue := settle (Inl reason) h # rest\<rparr>\<rparr>"
  let ?b = "processFinally ?a"
  have sb: "submitSettled (Inl reason) n s = Some ?b"
    unfolding submitSettled_result[OF assms(1-3)] using assms(4-6) by (simp add: settle_rejected)
  from submitSettled_consistent[OF assms(1,2), of "Inl reason" n] sb have cb: "consistent ?b" by simp
  have t: "timers ?b
      = (\<lambda>random. calculateRetryDelay ((tq ?a)\<lparr>processing := False\<rparr>) random
                     (retryCount (settle (Inl reason) h))) # timers ?a"
    using assms(4-6) m by (intro processFinally_retry) (simp_all add: settle_rejected)
  show ?thesis
    using sb cb assms(2,5,6) t by (simp add: settle_rejected)
qed

text \<open>The timer fires, the head is attempted again and fails again.\<close>

lemma failed_round:
  assumes "consistent s" and "pc s = Idle" and "truthy (signer (tq s))"
    and "currentNonce (tq s) \<noteq> None" and "queue (tq s) = h # rest" and "retryCount h < 2"
    and "timers s = d # ts" and "reason \<noteq> JUndefined" and "reason \<noteq> JNull"
  shows "\<exists>s'. run isAddress [TimerFired 0 n, SubmitSettled (Inl reason) n'] s = Some s'
          \<and> consistent s' \<and> pc s' = Idle \<and> signer (tq s') = signer (tq s)
          \<and> currentNonce (tq s') = currentNonce (tq s)
          \<and> queue (tq s') = h\<lparr>status := FAILED, lastAttempt := Some n,
                                 txError := Some (getProp reason ''message''),
                                 retryCount := retryCount h + 1\<rparr> # rest
          \<and> console s' = Dispatched (txId h) # console s
          \<and> timers s' = (\<lambda>random. calculateRetryDelay (tq s') random (retryCount h + 1)) # ts"
proof -
  let ?s0 = "s\<lparr>timers := ts\<rparr>"
  have c0: "consistent ?s0" using assms(1) by simp
  have np: "\<not> processing (tq s)" using assms(1,2) by (simp add: consistent_def)
  let ?a = "attempt n (?s0\<lparr>tq := (tq ?s0)\<lparr>processing := True\<rparr>\<rparr>)"
  have p: "process n ?s0 = Some ?a"
    using assms(3-5) np unfolding process_result[OF c0] by auto
  have tf: "step isAddress (TimerFired 0 n) s = Some ?a"
    using p assms(7) by simp
  from process_consistent[OF c0, of n] p have ca: "consistent ?a" by simp
  have pa: "pc ?a = AwaitSubmit" and qa: "queue (tq ?a) = markProcessing n h # rest"
    using assms(5) by (simp_all add: attempt_def)
  have rc: "retryCount (markProcessing n h) < 2"
    using assms(6) by (simp add: markProcessing_def)
  from first_failure[OF ca pa qa rc assms(8,9), of isAddress n']
  obtain s' where s': "step isAddress (SubmitSettled (Inl reason) n') ?a = Some s'"
    "consistent s'" "pc s' = Idle" "signer (tq s') = signer (tq ?a)"
    "currentNonce (tq s') = currentNonce (tq ?a)"
    "queue (tq s') = (markProcessing n h)\<lparr>status := FAILED,
         txError := Some (getProp reason ''message''),
         retryCount := retryCount (markProcessing n h) + 1\<rparr> # rest"
    "console s' = console ?a"
    "timers s' = (\<lambda>random. calculateRetryDelay (tq s') random (retryCount (markProcessing n h) + 1))
                 # timers ?a"
    by blast
  have r: "run isAddress [TimerFired 0 n, SubmitSettled (Inl reason) n'] s = Some s'"
    using tf s'(1) by (simp del: step.simps)
  show ?thesis
    using r s'(2-8) assms(5) by (simp add: attempt_def markProcessing_def)
qed

text \<open>The timer fires, the head is attempted, and this time the loop removes it.\<close>

lemma final_round:
  assumes "consistent s" and "pc s = Idle" and "truthy (signer (tq s))"
    and "currentNonce (tq s) \<noteq> None" and "queue (tq s) = h # rest"
    and "timers s = d # ts"
    and "status (settle outcome (markProcessing n h)) = COMPLETED
         \<or> retryCount (settle outcome (markProcessing n h)) \<ge> 3"
  shows "\<exists>s'. run isAddress [TimerFired 0 n, SubmitSettled outcome n'] s = Some s'
          \<and> consistent s'
          \<and> queue (tq s') = (if rest = [] then [] else markProcessing n' (hd rest) # tl rest)
          \<and> console s' = (if rest = [] then [] else [Dispatched (txId (hd rest))])
                @ Removed (settle outcome (markProcessing n h)) # Dispatched (txId h) # console s
          \<and> timers s' = ts"
proof -
  let ?s0 = "s\<lparr>timers := ts\<rparr>"
  have c0: "consistent ?s0" using assms(1) by simp
  have np: "\<not> processing (tq s)" using assms(1,2) by (simp add: consistent_def)
  let ?a = "attempt n (?s0\<lparr>tq := (tq ?s0)\<lparr>processing := True\<rparr>\<rparr>)"
  have p: "process n ?s0 = Some ?a"
    using assms(3-5) np unfolding process_result[OF c0] by auto
  have tf: "step isAddress (TimerFired 0 n) s = Some ?a"
    using p assms(6) by simp
  from process_consistent[OF c0, of n] p have ca: "consistent ?a" by simp
  have pa: "pc ?a = AwaitSubmit" and qa: "queue (tq ?a) = markProcessing n h # rest"
    using assms(5) by (simp_all add: attempt_def)
  let ?s2 = "?a\<lparr>tq := (tq ?a)\<lparr>queue := rest\<rparr>,
      console := Removed (settle outcome (markProcessing n h)) # console ?a\<rparr>"
  let ?b = "if rest = [] then processFinally ?s2 else attempt n' ?s2"
  have sb: "submitSettled outcome n' ?a = Some ?b"
    unfolding submitSettled_result[OF ca pa qa] using assms(7) by simp
  from submitSettled_consistent[OF ca pa, of outcome n'] sb have cb: "consistent ?b" by simp
  have ss: "step isAddress (SubmitSettled outcome n') ?a = Some ?b"
    using sb pa by simp
  have r: "run isAddress [TimerFired 0 n, SubmitSettled outcome n'] s = Some ?b"
    using tf ss by (simp del: step.simps)
  have q: "queue (tq ?b) = (if rest = [] then [] else markProcessing n' (hd rest) # tl rest)"
    by (cases rest) (simp_all add: attempt_def)
  have c: "console ?b = (if rest = [] then [] else [Dispatched (txId (hd rest))])
                @ Removed (settle outcome (markProcessing n h)) # Dispatched (txId h) # console s"
    using assms(5) by (cases rest) (simp_all add: attempt_def)
  have t: "timers ?b = ts"
    by (cases rest) (simp_all add: processFinally_empty)
  show ?thesis unfolding r using cb q c t by blast
qed

subsection \<open>Three attempts\<close>

text \<open>
  A submission rejected with \<open>undefined\<close> or \<open>null\<close>. The \<open>catch\<close> block of
  \<open>processTransaction\<close> throws before it counts the retry, the \<open>finally\<close> block of
  \<open>process\<close> sets its timer, and when the timer fires the transaction is attempted again
  with the retry count it had: the round can be repeated without end.
\<close>

lemma uncounted_round:
  assumes "consistent s" and "pc s = AwaitSubmit" and "queue (tq s) = h # rest"
    and "truthy (signer (tq s))" and "currentNonce (tq s) \<noteq> None"
    and "messageThrows outcome"
  shows "\<exists>s'. run isAddress [SubmitSettled outcome n, TimerFired 0 n'] s = Some s'
          \<and> consistent s' \<and> pc s' = AwaitSubmit
          \<and> queue (tq s') = h\<lparr>lastAttempt := Some n'\<rparr> # rest
          \<and> signer (tq s') = signer (tq s) \<and> currentNonce (tq s') = currentNonce (tq s)
          \<and> console s' = Dispatched (txId h) # console s
          \<and> timers s' = timers s"
proof -
  have m: "maxRetries (tq s) = 3" and hs: "status h = PROCESSING" and hr: "retryCount h < 3"
    using assms(1-3) by (simp_all add: consistent_def)
  let ?a = "s\<lparr>tq := (tq s)\<lparr>queue := h\<lparr>status := FAILED\<rparr> # rest\<rparr>\<rparr>"
  let ?b = "processFinally ?a"
  have sb: "submitSettled outcome n s = Some ?b"
    unfolding submitSettled_result[OF assms(1-3)] using assms(6) hr by (simp add: settle_throws)
  from submitSettled_consistent[OF assms(1,2), of outcome n] sb have cb: "consistent ?b" by simp
  have ss: "step isAddress (SubmitSettled outcome n) s = Some ?b"
    using sb assms(2) by simp
  have tb: "timers ?b
      = (\<lambda>random. calculateRetryDelay ((tq ?a)\<lparr>processing := False\<rparr>) random
                     (retryCount (h\<lparr>status := FAILED\<rparr>))) # timers ?a"
    using hr m by (intro processFinally_retry) simp_all
  let ?c = "?b\<lparr>timers := timers s\<rparr>"
  have cc: "consistent ?c" using cb by simp
  let ?d = "attempt n' (?c\<lparr>tq := (tq ?c)\<lparr>processing := True\<rparr>\<rparr>)"
  have p: "process n' ?c = Some ?d"
    unfolding process_result[OF cc] using assms(4,5) by auto
  from process_consistent[OF cc, of n'] p have cd: "consistent ?d" by simp
  have tf: "step isAddress (TimerFired 0 n') ?b = Some ?d"
    using p tb by simp
  have r: "run isAddress [SubmitSettled outcome n, TimerFired 0 n'] s = Some ?d"
    using ss tf by (simp del: step.simps)
  have "h\<lparr>status := PROCESSING, lastAttempt := Some n'\<rparr> = h\<lparr>lastAttempt := Some n'\<rparr>"
    using hs by simp
  then show ?thesis
    unfolding r using cd by (simp add: attempt_def markProcessing_def)
qed


text \<open>The same run with a reason that has a message: the third failure removes the
  transaction as FAILED with \<open>retryCount = 3\<close>, no timer is left, and nothing is attempted
  after that.\<close>

lemma three_failures_with_message:
  "map_option console
     (run isTestAddress
        [Enqueue validLogTransaction ''tx-1'' 10, NonceSettled (Some 7) 11,
         SubmitSettled (Inl (JObj [(''message'', JStr ''timeout'')])) 12, TimerFired 0 13,
         SubmitSettled (Inl (JObj [(''message'', JStr ''timeout'')])) 14, TimerFired 0 15,
         SubmitSettled (Inl (JObj [(''message'', JStr ''timeout'')])) 16, TimerFired 0 17]
        (boot JNull (JObj [])))
   = Some [Removed ((pendingTransaction validLogTransaction ''tx-1'' 10)
                      \<lparr>status := FAILED, retryCount := 3, lastAttempt := Some 15,
                        txError := Some (JStr ''timeout'')\<rparr>),
           Dispatched ''tx-1'', Dispatched ''tx-1'', Dispatched ''tx-1'',
           NonceInitialized 7, Queued ''tx-1'']
   \<and> map_option (queue \<circ> tq)
     (run isTestAddress
        [Enqueue validLogTransaction ''tx-1'' 10, NonceSettled (Some 7) 11,
         SubmitSettled (Inl (JObj [(''message'', JStr ''timeout'')])) 12, TimerFired 0 13,
         SubmitSettled (Inl (JObj [(''message'', JStr ''timeout'')])) 14, TimerFired 0 15,
         SubmitSettled (Inl (JObj [(''message'', JStr ''timeout'')])) 16, TimerFired 0 17]
        (boot JNull (JObj [])))
   = Some []
   \<and> map_option (length \<circ> timers)
     (run isTestAddress
        [Enqueue validLogTransaction ''tx-1'' 10, NonceSettled (Some 7) 11,
         SubmitSettled (Inl (JObj [(''message'', JStr ''timeout'')])) 12, TimerFired 0 13,
         SubmitSettled (Inl (JObj [(''message'', JStr ''timeout'')])) 14, TimerFired 0 15,
         SubmitSettled (Inl (JObj [(''message'', JStr ''timeout'')])) 16]
        (boot JNull (JObj [])))
   = Some 0"
  using validLogTransaction_ok by (simp add: eval_defs)

subsection \<open>The retry counter\<close>

text \<open>
  C3 (as the code has it). \<open>retryCount\<close> counts failures: marking a transaction
  PROCESSING records \<open>lastAttempt\<close> and leaves \<open>retryCount\<close> alone, a submission that
  fails with a reason other than \<open>undefined\<close> and \<open>null\<close> adds one, a successful one adds
  nothing. A transaction whose submission fails twice in this way, is retried by the
  timers, and then succeeds is removed as COMPLETED with \<open>retryCount = 2\<close>, after three
  attempts.
\<close>

theorem retry_counter_counts_failures:
  assumes "run isAddress es (boot p sg) = Some s"
    and "pc s = AwaitSubmit" and "queue (tq s) = t # rest" and "retryCount t = 0"
    and "truthy (signer (tq s))" and "currentNonce (tq s) \<noteq> None"
    and "reason \<noteq> JUndefined" and "reason \<noteq> JNull"
    and "r1 \<noteq> JUndefined" and "r1 \<noteq> JNull" and "r2 \<noteq> JUndefined" and "r2 \<noteq> JNull"
  shows "retryCount (markProcessing now x) = retryCount x
       \<and> lastAttempt (markProcessing now x) = Some now
       \<and> status (markProcessing now x) = PROCESSING
       \<and> retryCount (settle (Inl reason) x) = retryCount x + 1
       \<and> status (settle (Inl reason) x) = FAILED
       \<and> retryCount (settle (Inr res) x) = retryCount x
       \<and> status (settle (Inr res) x) = COMPLETED
       \<and> (\<exists>s'. run isAddress
                  [SubmitSettled (Inl r1) n1, TimerFired 0 n2, SubmitSettled (Inl r2) n3,
                   TimerFired 0 n4, SubmitSettled (Inr res) n5] s = Some s'
            \<and> console s' =
                 (if rest = [] then [] else [Dispatched (txId (hd rest))])
                 @ Removed (t\<lparr>status := COMPLETED, retryCount := 2, lastAttempt := Some n4,
                               txError := None, txResult := Some res\<rparr>)
                 # Dispatched (txId t) # Dispatched (txId t) # console s
            \<and> timers s' = timers s)"
proof -
  have c: "consistent s"
    using run_consistent[OF boot_consistent, of isAddress es p sg] assms(1) by simp
  have rc: "retryCount t < 2" using assms(4) by simp
  let ?t1 = "t\<lparr>status := FAILED, txError := Some (getProp r1 ''message''),
                retryCount := retryCount t + 1\<rparr>"
  from first_failure[OF c assms(2,3) rc assms(9,10), of isAddress n1]
  obtain s1 where s1: "step isAddress (SubmitSettled (Inl r1) n1) s = Some s1"
    "consistent s1" "pc s1 = Idle" "signer (tq s1) = signer (tq s)"
    "currentNonce (tq s1) = currentNonce (tq s)" "queue (tq s1) = ?t1 # rest"
    "console s1 = console s"
    "timers s1 = (\<lambda>random. calculateRetryDelay (tq s1) random (retryCount t + 1)) # timers s"
    by blast
  have sg1: "truthy (signer (tq s1))" and nn1: "currentNonce (tq s1) \<noteq> None"
    and rc1: "retryCount ?t1 < 2"
    using assms(4,5,6) s1(4,5) by simp_all
  let ?t2 = "?t1\<lparr>status := FAILED, lastAttempt := Some n2,
                  txError := Some (getProp r2 ''message''),
                  retryCount := retryCount ?t1 + 1\<rparr>"
  from failed_round[OF s1(2,3) sg1 nn1 s1(6) rc1 s1(8) assms(11,12), of isAddress n2 n3]
  obtain s2 where s2: "run isAddress [TimerFired 0 n2, SubmitSettled (Inl r2) n3] s1 = Some s2"
    "consistent s2" "pc s2 = Idle" "signer (tq s2) = signer (tq s1)"
    "currentNonce (tq s2) = currentNonce (tq s1)" "queue (tq s2) = ?t2 # rest"
    "console s2 = Dispatched (txId ?t1) # console s1"
    "timers s2 = (\<lambda>random. calculateRetryDelay (tq s2) random (retryCount ?t1 + 1)) # timers s"
    by blast
  have sg2: "truthy (signer (tq s2))" and nn2: "currentNonce (tq s2) \<noteq> None"
    using sg1 nn1 s2(4,5) by simp_all
  have "status (settle (Inr res) (markProcessing n4 ?t2)) = COMPLETED
       \<or> retryCount (settle (Inr res) (markProcessing n4 ?t2)) \<ge> 3"
    by (simp add: settle_resolved)
  from final_round[OF s2(2,3) sg2 nn2 s2(6,8) this, of isAddress n5]
  obtain s3 where s3: "run isAddress [TimerFired 0 n4, SubmitSettled (Inr res) n5] s2 = Some s3"
    "console s3 = (if rest = [] then [] else [Dispatched (txId (hd rest))])
              @ Removed (settle (Inr res) (markProcessing n4 ?t2)) # Dispatched (txId ?t2) # console s2"
    "timers s3 = timers s"
    by blast
  have r: "run isAddress
                    [SubmitSettled (Inl r1) n1, TimerFired 0 n2, SubmitSettled (Inl r2) n3,
                     TimerFired 0 n4, SubmitSettled (Inr res) n5] s = Some s3"
    using s1(1) s2(1) s3(1)
      run_append[of isAddress "[TimerFired 0 n2, SubmitSettled (Inl r2) n3]"
        "[TimerFired 0 n4, SubmitSettled (Inr res) n5]" s1]
    by (simp del: step.simps)
  have e: "settle (Inr res) (markProcessing n4 ?t2)
      = t\<lparr>status := COMPLETED, retryCount := 2, lastAttempt := Some n4,
           txError := None, txResult := Some res\<rparr>"
    using assms(4) by (simp add: settle_resolved markProcessing_def)
  have sc: "\<exists>s'. run isAddress
                  [SubmitSettled (Inl r1) n1, TimerFired 0 n2, SubmitSettled (Inl r2) n3,
                   TimerFired 0 n4, SubmitSettled (Inr res) n5] s = Some s'
            \<and> console s' =
                 (if rest = [] then [] else [Dispatched (txId (hd rest))])
                 @ Removed (t\<lparr>status := COMPLETED, retryCount := 2, lastAttempt := Some n4,
                               txError := None, txResult := Some res\<rparr>)
                 # Dispatched (txId t) # Dispatched (txId t) # console s
            \<and> timers s' = timers s"
    using r s3(2,3) s2(7) s1(7) unfolding e by simp
  show ?thesis
    using sc assms(7,8) by (simp add: markProcessing_def settle_rejected settle_resolved)
qed

theorem retry_counter_counts_failures_witness:
  "\<exists>s. run isTestAddress [Enqueue validLogTransaction ''tx-1'' 10, NonceSettled (Some 7) 11]
          (boot JNull (JObj [])) = Some s
     \<and> pc s = AwaitSubmit
     \<and> queue (tq s) = [(pendingTransaction validLogTransaction ''tx-1'' 10)
                          \<lparr>status := PROCESSING, lastAttempt := Some 11\<rparr>]
     \<and> truthy (signer (tq s)) \<and> currentNonce (tq s) = Some 7
     \<and> (\<exists>s'. run isTestAddress
                [SubmitSettled (Inl (JObj [(''message'', JStr ''timeout'')])) 12, TimerFired 0 13,
                 SubmitSettled (Inl (JObj [(''message'', JStr ''timeout'')])) 14, TimerFired 0 15,
                 SubmitSettled (Inr (JStr ''0xhash'')) 16] s = Some s'
          \<and> console s' =
               [Removed ((pendingTransaction validLogTransaction ''tx-1'' 10)
                           \<lparr>status := COMPLETED, retryCount := 2, lastAttempt := Some 15,
                             txResult := Some (JStr ''0xhash'')\<rparr>),
                Dispatched ''tx-1'', Dispatched ''tx-1'', Dispatched ''tx-1'',
                NonceInitialized 7, Queued ''tx-1'']
          \<and> timers s' = timers s)"
proof -
  from in_flight_state obtain s where s:
    "run isTestAddress [Enqueue validLogTransaction ''tx-1'' 10, NonceSettled (Some 7) 11]
          (boot JNull (JObj [])) = Some s"
    "pc s = AwaitSubmit"
    "queue (tq s) = [(pendingTransaction validLogTransaction ''tx-1'' 10)
                          \<lparr>status := PROCESSING, lastAttempt := Some 11\<rparr>]"
    "signer (tq s) = JObj []" "currentNonce (tq s) = Some 7"
    "console s = [Dispatched ''tx-1'', NonceInitialized 7, Queued ''tx-1'']"
    by blast
  have rc: "retryCount ((pendingTransaction validLogTransaction ''tx-1'' 10)
                          \<lparr>status := PROCESSING, lastAttempt := Some 11\<rparr>) = 0"
    by (simp add: pendingTransaction_def)
  have sg: "truthy (signer (tq s))" and nn: "currentNonce (tq s) \<noteq> None"
    using s(4,5) by simp_all
  have ne: "JObj [(''message'', JStr ''timeout'')] \<noteq> JUndefined"
    "JObj [(''message'', JStr ''timeout'')] \<noteq> JNull"
    by simp_all
  from retry_counter_counts_failures[where ?r1.0 = "JObj [(''message'', JStr ''timeout'')]"
      and ?n1.0 = 12 and ?n2.0 = 13 and ?r2.0 = "JObj [(''message'', JStr ''timeout'')]"
      and ?n3.0 = 14 and ?n4.0 = 15 and res = "JStr ''0xhash''" and ?n5.0 = 16
      and reason = "JObj [(''message'', JStr ''timeout'')]",
      OF s(1,2,3) rc sg nn ne ne ne]
  have "\<exists>s'. run isTestAddress
                [SubmitSettled (Inl (JObj [(''message'', JStr ''timeout'')])) 12, TimerFired 0 13,
                 SubmitSettled (Inl (JObj [(''message'', JStr ''timeout'')])) 14, TimerFired 0 15,
                 SubmitSettled (Inr (JStr ''0xhash'')) 16] s = Some s'
          \<and> console s' =
               [Removed ((pendingTransaction validLogTransaction ''tx-1'' 10)
                           \<lparr>status := COMPLETED, retryCount := 2, lastAttempt := Some 15,
                             txResult := Some (JStr ''0xhash'')\<rparr>),
                Dispatched ''tx-1'', Dispatched ''tx-1'', Dispatched ''tx-1'',
                NonceInitialized 7, Queued ''tx-1'']
          \<and> timers s' = timers s"
    using s(6) by (simp add: pendingTransaction_def)
  then show ?thesis using s sg by blast
qed

text \<open>
  The run in which the first transaction fails twice and then succeeds: the console ends
  with three attempts and the transaction removed as COMPLETED with \<open>retryCount = 2\<close>.
\<close>

theorem attempt_counter_counterexample:
  "map_option console
     (run isTestAddress
        [Enqueue validLogTransaction ''tx-1'' 10, NonceSettled (Some 7) 11,
         SubmitSettled (Inl (JObj [(''message'', JStr ''timeout'')])) 12, TimerFired 0 13,
         SubmitSettled (Inl (JObj [(''message'', JStr ''timeout'')])) 14, TimerFired 0 15,
         SubmitSettled (Inr (JStr ''0xhash'')) 16]
        (boot JNull (JObj [])))
   = Some [Removed ((pendingTransaction validLogTransaction ''tx-1'' 10)
                      \<lparr>status := COMPLETED, retryCount := 2, lastAttempt := Some 15,
                        txResult := Some (JStr ''0xhash'')\<rparr>),
           Dispatched ''tx-1'', Dispatched ''tx-1'', Dispatched ''tx-1'',
           NonceInitialized 7, Queued ''tx-1'']"
  using validLogTransaction_ok by (simp add: eval_defs)

subsection \<open>Status of a removed transaction\<close>

text \<open>
  C4. \<open>getStatus\<close> searches \<open>this.queue\<close> only, and the loop removes a transaction in the
  step that makes it terminal. After the one transaction of this run has completed,
  \<open>getStatus\<close> with its identifier returns \<open>null\<close>, although the console shows it COMPLETED
  with its result.
\<close>

theorem getStatus_after_removal:
  "map_option (getStatus ''tx-1'' \<circ> tq)
     (run isTestAddress
        [Enqueue validLogTransaction ''tx-1'' 10, NonceSettled (Some 7) 11,
         SubmitSettled (Inr (JStr ''0xhash'')) 12]
        (boot JNull (JObj [])))
   = Some None
   \<and> map_option console
     (run isTestAddress
        [Enqueue validLogTransaction ''tx-1'' 10, NonceSettled (Some 7) 11,
         SubmitSettled (Inr (JStr ''0xhash'')) 12]
        (boot JNull (JObj [])))
   = Some [Removed ((pendingTransaction validLogTransaction ''tx-1'' 10)
                      \<lparr>status := COMPLETED, lastAttempt := Some 11,
                        txResult := Some (JStr ''0xhash'')\<rparr>),
           Dispatched ''tx-1'', NonceInitialized 7, Queued ''tx-1'']"
  using validLogTransaction_ok by (simp add: eval_defs getStatus_def)

subsection \<open>The nonce\<close>

lemma attempt_nonce [simp]:
  "currentNonce (tq (attempt now s)) = currentNonce (tq s)"
  "nonceReads (console (attempt now s)) = nonceReads (console s)"
  by (cases "queue (tq s)"; simp add: attempt_def)+








end
